theory Spec2Isabelle
  imports Main
begin

section \<open>Python strings, slices and ranges\<close>

text \<open>
  A Python \<open>str\<close> is a sequence of Unicode code points, and \<open>len\<close> counts code points.
  A code point is modelled as a natural number and a string as a list of them.
\<close>

type_synonym codepoint = nat
type_synonym pystr = "codepoint list"

text \<open>
  \<open>str.split()\<close> without separator and \<open>str.strip()\<close> without argument both use
  CPython's \<open>Py_UNICODE_ISSPACE\<close>: the code points U+0009..U+000D, U+001C..U+0020,
  U+0085, U+00A0, U+1680, U+2000..U+200A, U+2028, U+2029, U+202F, U+205F and U+3000.
\<close>

definition isspace :: "codepoint \<Rightarrow> bool" where
  "isspace c \<longleftrightarrow>
     (9 \<le> c \<and> c \<le> 13) \<or> (28 \<le> c \<and> c \<le> 32) \<or> c = 133 \<or> c = 160 \<or> c = 5760 \<or>
     (8192 \<le> c \<and> c \<le> 8202) \<or> c = 8232 \<or> c = 8233 \<or> c = 8239 \<or> c = 8287 \<or> c = 12288"

text \<open>The code points of an ASCII literal.\<close>

definition str :: "string \<Rightarrow> pystr" where
  "str s = map of_char s"

text \<open>
  \<open>text.split()\<close>: skip whitespace, then cut the maximal run of non-whitespace, and go on
  until the end of the string. No empty word is produced.
\<close>

function py_split :: "pystr \<Rightarrow> pystr list" where
  "py_split [] = []"
| "py_split (c # cs) =
     (if isspace c then py_split cs
      else (c # takeWhile (\<lambda>x. \<not> isspace x) cs) # py_split (dropWhile (\<lambda>x. \<not> isspace x) cs))"
  by pat_completeness auto
termination
  by (relation "measure length") (auto simp: less_Suc_eq_le length_dropWhile_le)

text \<open>\<open>sep.join(parts)\<close>.\<close>

fun py_join :: "pystr \<Rightarrow> pystr list \<Rightarrow> pystr" where
  "py_join sep [] = []"
| "py_join sep [x] = x"
| "py_join sep (x # y # ys) = x @ sep @ py_join sep (y # ys)"

text \<open>
  \<open>s.lstrip()\<close>, \<open>s.rstrip()\<close> and \<open>s.strip()\<close>: the whitespace at the left end, at the
  right end and at both ends is removed.
\<close>

definition py_lstrip :: "pystr \<Rightarrow> pystr" where
  "py_lstrip s = dropWhile isspace s"

definition py_rstrip :: "pystr \<Rightarrow> pystr" where
  "py_rstrip s = rev (dropWhile isspace (rev s))"

definition py_strip :: "pystr \<Rightarrow> pystr" where
  "py_strip s = py_rstrip (py_lstrip s)"

text \<open>
  A slice bound of \<open>xs[i:j]\<close>: a negative bound counts from the end, and every bound is
  clamped to \<open>0..len(xs)\<close>.
\<close>

definition slice_index :: "nat \<Rightarrow> int \<Rightarrow> nat" where
  "slice_index n i = (if i < 0 then nat (max 0 (i + int n)) else min (nat i) n)"

text \<open>\<open>xs[i:j]\<close>; it is empty when the lower bound is not below the upper one.\<close>

definition py_slice :: "'a list \<Rightarrow> int \<Rightarrow> int \<Rightarrow> 'a list" where
  "py_slice xs i j =
     (let lo = slice_index (length xs) i; hi = slice_index (length xs) j
      in if lo < hi then take (hi - lo) (drop lo xs) else [])"

text \<open>
  The errors of the program. The source raises \<open>ValueError\<close> with a message for the first
  three and \<open>RuntimeError\<close> for a missing API key; \<open>RangeStepZero\<close> is the
  \<open>ValueError\<close> of \<open>range\<close> with step 0, and \<open>LibraryError\<close> is any exception that a
  parser, the embedding service, the storage driver or the standard output raises, which
  the program lets through.
\<close>

datatype error =
    UnsupportedFormat
  | InvalidConfiguration
  | LengthMismatch
  | MissingCredential
  | RangeStepZero
  | LibraryError string

text \<open>\<open>range(start, stop, step)\<close> as the list of its values.\<close>

function range_up :: "int \<Rightarrow> int \<Rightarrow> int \<Rightarrow> int list" where
  "range_up i stop step =
     (if 0 < step \<and> i < stop then i # range_up (i + step) stop step else [])"
  by pat_completeness auto
termination
  by (relation "measure (\<lambda>(i, stop, step). nat (stop - i))") auto

function range_down :: "int \<Rightarrow> int \<Rightarrow> int \<Rightarrow> int list" where
  "range_down i stop step =
     (if step < 0 \<and> stop < i then i # range_down (i + step) stop step else [])"
  by pat_completeness auto
termination
  by (relation "measure (\<lambda>(i, stop, step). nat (i - stop))") auto

definition py_range :: "int \<Rightarrow> int \<Rightarrow> int \<Rightarrow> error + int list" where
  "py_range start stop step =
     (if step = 0 then Inl RangeStepZero
      else if 0 < step then Inr (range_up start stop step)
      else Inr (range_down start stop step))"

section \<open>The normalizer and the chunker\<close>

definition normalize_whitespace :: "pystr \<Rightarrow> pystr" where
  "normalize_whitespace text = py_join [32] (py_split text)"

text \<open>
  The body of the \<open>for\<close> loop of \<open>split_fixed_overlap\<close>, over the values of the range,
  with the list \<open>chunks\<close> as accumulator.
\<close>

fun chunk_loop :: "pystr \<Rightarrow> int \<Rightarrow> int list \<Rightarrow> pystr list \<Rightarrow> pystr list" where
  "chunk_loop text chunk_size [] chunks = chunks"
| "chunk_loop text chunk_size (start # rest) chunks =
     (let chunk = py_strip (py_slice text start (start + chunk_size))
      in chunk_loop text chunk_size rest (if chunk \<noteq> [] then chunks @ [chunk] else chunks))"

definition split_fixed_overlap :: "pystr \<Rightarrow> int \<Rightarrow> int \<Rightarrow> error + pystr list" where
  "split_fixed_overlap text chunk_size overlap =
     (if overlap \<ge> chunk_size then Inl InvalidConfiguration
      else
        let text' = normalize_whitespace text in
        if text' = [] then Inr []
        else
          let step = chunk_size - overlap in
          case py_range 0 (int (length text')) step of
            Inl e \<Rightarrow> Inl e
          | Inr starts \<Rightarrow> Inr (chunk_loop text' chunk_size starts []))"

section \<open>Files, the embedding service and the store\<close>

text \<open>
  The configuration constants of the module.
\<close>

definition SPLIT_STRATEGY :: pystr where
  "SPLIT_STRATEGY = str ''fixed_overlap''"

definition CHUNK_SIZE :: int where
  "CHUNK_SIZE = 1000"

definition CHUNK_OVERLAP :: int where
  "CHUNK_OVERLAP = 200"

text \<open>The lines that \<open>main\<close> prints, with the numbers they show.\<close>

datatype message =
    NothingToIndex
  | Extracted nat nat int int
  | CreatedEmbeddings nat nat
  | Inserted

text \<open>
  A row of the table \<open>document_chunks\<close>: id, chunk text, embedding, file name, split
  strategy and creation time. The type \<open>'f\<close> stands for the floating-point numbers of
  an embedding and \<open>'t\<close> for the time stamps; the program never looks into either.
\<close>

type_synonym ('f, 't) row = "pystr \<times> pystr \<times> 'f list \<times> pystr \<times> pystr \<times> 't"

text \<open>
  What the libraries and services answer is not in the repository and is a parameter of
  the model. The answer of a call that raises is the message of its exception.
  \<^item> \<open>str_lower\<close>: \<open>str.lower()\<close>, the case mapping of the Unicode tables;
  \<^item> \<open>pdf_pages\<close>: \<open>PdfReader(path).pages\<close> with \<open>extract_text()\<close> of every page
    (\<open>None\<close> or a string);
  \<^item> \<open>docx_paragraphs\<close>: the \<open>text\<close> of the paragraphs of \<open>Document(path)\<close>;
  \<^item> \<open>gemini_api_key\<close>: the environment variable \<open>GEMINI_API_KEY\<close>;
  \<^item> \<open>embed_content\<close>: the \<open>embedding\<close> field of the answer to a request, given the
    number of requests sent before and the content;
  \<^item> \<open>uuid4\<close>: the identifier drawn, given the number of identifiers drawn before;
  \<^item> \<open>utcnow\<close>: the clock;
  \<^item> \<open>db_connect\<close>, \<open>execute_values\<close>, \<open>db_commit\<close>: whether the storage driver
    raises when connecting, inserting the rows and committing;
  \<^item> \<open>stdout_error\<close>: whether \<open>print\<close> raises for a line, as it does with
    \<open>UnicodeEncodeError\<close> for the arrow U+2192 of the second line when the standard output
    cannot encode it.
\<close>

record ('f, 't) env =
  str_lower :: "pystr \<Rightarrow> pystr"
  pdf_pages :: "pystr \<Rightarrow> string + pystr option list"
  docx_paragraphs :: "pystr \<Rightarrow> string + pystr list"
  gemini_api_key :: "pystr option"
  embed_content :: "nat \<Rightarrow> pystr \<Rightarrow> string + 'f list"
  uuid4 :: "nat \<Rightarrow> pystr"
  utcnow :: 't
  db_connect :: "string option"
  execute_values :: "('f, 't) row list \<Rightarrow> string option"
  db_commit :: "string option"
  stdout_error :: "message \<Rightarrow> string option"

text \<open>
  What the program changes outside itself: the contents sent to the embedding service, the
  number of identifiers drawn, the number of storage connections opened, the committed
  rows of the table, and the lines printed.
\<close>

record ('f, 't) world =
  embed_requests :: "pystr list"
  uuids_drawn :: nat
  connections_opened :: nat
  document_chunks :: "('f, 't) row list"
  printed :: "message list"

text \<open>\<open>s.endswith(suffix)\<close>.\<close>

definition py_endswith :: "pystr \<Rightarrow> pystr \<Rightarrow> bool" where
  "py_endswith s suffix \<longleftrightarrow>
     length suffix \<le> length s \<and> drop (length s - length suffix) s = suffix"

definition read_pdf :: "('f, 't) env \<Rightarrow> pystr \<Rightarrow> error + pystr" where
  "read_pdf env path =
     (case pdf_pages env path of
        Inl msg \<Rightarrow> Inl (LibraryError msg)
      | Inr pages \<Rightarrow>
          Inr (py_strip (py_join [10] (map (\<lambda>page. case page of None \<Rightarrow> [] | Some s \<Rightarrow> s) pages))))"

definition read_docx :: "('f, 't) env \<Rightarrow> pystr \<Rightarrow> error + pystr" where
  "read_docx env path =
     (case docx_paragraphs env path of
        Inl msg \<Rightarrow> Inl (LibraryError msg)
      | Inr paragraphs \<Rightarrow> Inr (py_strip (py_join [10] paragraphs)))"

definition load_text :: "('f, 't) env \<Rightarrow> pystr \<Rightarrow> error + pystr" where
  "load_text env path =
     (let p = str_lower env path in
      if py_endswith p (str ''.pdf'') then read_pdf env path
      else if py_endswith p (str ''.docx'') then read_docx env path
      else Inl UnsupportedFormat)"

text \<open>
  The loop of \<open>embed_texts\<close>: one request for each text, in order; the first request that
  raises ends the call.
\<close>

fun embed_loop ::
  "('f, 't) env \<Rightarrow> pystr list \<Rightarrow> 'f list list \<Rightarrow> ('f, 't) world \<Rightarrow>
     (error + 'f list list) \<times> ('f, 't) world" where
  "embed_loop env [] vectors w = (Inr vectors, w)"
| "embed_loop env (t # ts) vectors w =
     (let w' = w\<lparr>embed_requests := embed_requests w @ [t]\<rparr> in
      case embed_content env (length (embed_requests w)) t of
        Inl msg \<Rightarrow> (Inl (LibraryError msg), w')
      | Inr vec \<Rightarrow> embed_loop env ts (vectors @ [vec]) w')"

definition embed_texts ::
  "('f, 't) env \<Rightarrow> pystr list \<Rightarrow> ('f, 't) world \<Rightarrow> (error + 'f list list) \<times> ('f, 't) world" where
  "embed_texts env texts w =
     (if gemini_api_key env = None \<or> gemini_api_key env = Some [] then (Inl MissingCredential, w)
      else embed_loop env texts [] w)"

text \<open>
  \<open>insert_chunks\<close>. The rows are built before the connection is opened. The block
  \<open>with db_connect() as conn\<close> rolls the transaction back when its body raises, so the rows
  reach the table only when both the insertion and the commit succeed.
\<close>

definition insert_chunks ::
  "('f, 't) env \<Rightarrow> pystr \<Rightarrow> pystr list \<Rightarrow> 'f list list \<Rightarrow> ('f, 't) world \<Rightarrow>
     (error + unit) \<times> ('f, 't) world" where
  "insert_chunks env filename chunks embeddings w =
     (if length chunks \<noteq> length embeddings then (Inl LengthMismatch, w)
      else
        let now = utcnow env;
            rows = map (\<lambda>(i, chunk_text, emb).
                      (uuid4 env i, chunk_text, emb, filename, SPLIT_STRATEGY, now))
                     (enumerate (uuids_drawn w) (zip chunks embeddings));
            w1 = w\<lparr>uuids_drawn := uuids_drawn w + length rows\<rparr>
        in case db_connect env of
             Some msg \<Rightarrow> (Inl (LibraryError msg), w1)
           | None \<Rightarrow>
               let w2 = w1\<lparr>connections_opened := Suc (connections_opened w1)\<rparr> in
               (case execute_values env rows of
                  Some msg \<Rightarrow> (Inl (LibraryError msg), w2)
                | None \<Rightarrow>
                    (case db_commit env of
                       Some msg \<Rightarrow> (Inl (LibraryError msg), w2)
                     | None \<Rightarrow> (Inr (), w2\<lparr>document_chunks := document_chunks w2 @ rows\<rparr>))))"

text \<open>\<open>os.path.basename\<close> of a POSIX path: what follows the last slash.\<close>

definition basename :: "pystr \<Rightarrow> pystr" where
  "basename path = rev (takeWhile (\<lambda>c. c \<noteq> 47) (rev path))"

text \<open>\<open>print\<close>: the line is written, unless the standard output raises.\<close>

definition print ::
  "('f, 't) env \<Rightarrow> message \<Rightarrow> ('f, 't) world \<Rightarrow> (error + unit) \<times> ('f, 't) world" where
  "print env m w =
     (case stdout_error env m of
        Some msg \<Rightarrow> (Inl (LibraryError msg), w)
      | None \<Rightarrow> (Inr (), w\<lparr>printed := printed w @ [m]\<rparr>))"

text \<open>\<open>main\<close>, with the path of the command line as argument.\<close>

definition main ::
  "('f, 't) env \<Rightarrow> pystr \<Rightarrow> ('f, 't) world \<Rightarrow> (error + unit) \<times> ('f, 't) world" where
  "main env path w =
     (let filename = basename path in
      case load_text env path of
        Inl e \<Rightarrow> (Inl e, w)
      | Inr text \<Rightarrow>
          if text = [] then print env NothingToIndex w
          else
            (case split_fixed_overlap text CHUNK_SIZE CHUNK_OVERLAP of
               Inl e \<Rightarrow> (Inl e, w)
             | Inr chunks \<Rightarrow>
                 (case print env (Extracted (length text) (length chunks) CHUNK_SIZE CHUNK_OVERLAP) w of
                    (Inl e, w1) \<Rightarrow> (Inl e, w1)
                  | (Inr u1, w1) \<Rightarrow>
                      (case embed_texts env chunks w1 of
                         (Inl e, w2) \<Rightarrow> (Inl e, w2)
                       | (Inr embeddings, w2) \<Rightarrow>
                           let dims = (if embeddings \<noteq> [] then length (hd embeddings) else 0) in
                           (case print env (CreatedEmbeddings (length embeddings) dims) w2 of
                              (Inl e, w3) \<Rightarrow> (Inl e, w3)
                            | (Inr u3, w3) \<Rightarrow>
                                (case insert_chunks env filename chunks embeddings w3 of
                                   (Inl e, w4) \<Rightarrow> (Inl e, w4)
                                 | (Inr u, w4) \<Rightarrow> print env Inserted w4))))))"

section \<open>The specification's description of the normalizer and the chunker\<close>

text \<open>
  The definitions of this section follow the words of the specification, not the code; the
  theorems below compare them with the code.

  Every maximal run of whitespace becomes one ASCII space.
\<close>

function collapse_runs :: "pystr \<Rightarrow> pystr" where
  "collapse_runs [] = []"
| "collapse_runs (c # cs) =
     (if isspace c then 32 # collapse_runs (dropWhile isspace cs) else c # collapse_runs cs)"
  by pat_completeness auto
termination
  by (relation "measure length") (auto simp: less_Suc_eq_le length_dropWhile_le)

text \<open>The normal form: runs collapsed, no whitespace at either end.\<close>

definition spec_normalize :: "pystr \<Rightarrow> pystr" where
  "spec_normalize t = py_strip (collapse_runs t)"

text \<open>
  The starting offsets \<open>0, step, 2 * step, \<dots>\<close> below the length of the text, in
  increasing order.
\<close>

definition spec_offsets :: "nat \<Rightarrow> int \<Rightarrow> int list" where
  "spec_offsets len step =
     map (\<lambda>k. int k * step) (filter (\<lambda>k. int k * step < int len) [0..<len])"

text \<open>
  The chunk at an offset: the substring of up to \<open>chunk_size\<close> characters from there,
  trimmed.
\<close>

definition spec_chunk :: "pystr \<Rightarrow> int \<Rightarrow> int \<Rightarrow> pystr" where
  "spec_chunk t chunk_size offset = py_strip (take (nat chunk_size) (drop (nat offset) t))"

text \<open>The chunks of all offsets, without those that are empty after trimming.\<close>

definition spec_split :: "pystr \<Rightarrow> int \<Rightarrow> int \<Rightarrow> pystr list" where
  "spec_split text chunk_size overlap =
     (let t = normalize_whitespace text; step = chunk_size - overlap
      in filter (\<lambda>c. c \<noteq> []) (map (spec_chunk t chunk_size) (spec_offsets (length t) step)))"

text \<open>
  The window of the code at a starting offset (what \<open>chunk\<close> holds in the loop), and the
  starting offsets of the windows that the loop appends to \<open>chunks\<close>.
\<close>

definition window :: "pystr \<Rightarrow> int \<Rightarrow> int \<Rightarrow> pystr" where
  "window t chunk_size start = py_strip (py_slice t start (start + chunk_size))"

definition kept_starts :: "pystr \<Rightarrow> int \<Rightarrow> int list \<Rightarrow> int list" where
  "kept_starts t chunk_size starts = filter (\<lambda>start. window t chunk_size start \<noteq> []) starts"

text \<open>
  Whether a position lies in the span \<open>[start, start + chunk_size)\<close> of one of the given
  starting offsets; whether no window of a run trims to empty; and whether no window whose
  span holds the position trims to empty.
\<close>

definition covered :: "int \<Rightarrow> int list \<Rightarrow> nat \<Rightarrow> bool" where
  "covered chunk_size starts p =
     list_ex (\<lambda>start. start \<le> int p \<and> int p < start + chunk_size) starts"

definition all_windows_kept :: "pystr \<Rightarrow> int \<Rightarrow> int list \<Rightarrow> bool" where
  "all_windows_kept t chunk_size starts = list_all (\<lambda>start. window t chunk_size start \<noteq> []) starts"

definition region_kept :: "pystr \<Rightarrow> int \<Rightarrow> int list \<Rightarrow> nat \<Rightarrow> bool" where
  "region_kept t chunk_size starts p =
     list_all (\<lambda>start. start \<le> int p \<and> int p < start + chunk_size \<longrightarrow>
                 window t chunk_size start \<noteq> []) starts"

section \<open>Basic facts about splitting and joining\<close>

declare range_up.simps [simp del] range_down.simps [simp del]

lemma py_split_words: "w \<in> set (py_split t) \<Longrightarrow> w \<noteq> [] \<and> (\<forall>c\<in>set w. \<not> isspace c)"
proof (induction t arbitrary: w rule: py_split.induct)
  case 1
  then show ?case by simp
next
  case (2 c cs)
  show ?case
  proof (cases "isspace c")
    case True
    with 2 show ?thesis by simp
  next
    case False
    with 2(3) have "w = c # takeWhile (\<lambda>x. \<not> isspace x) cs
        \<or> w \<in> set (py_split (dropWhile (\<lambda>x. \<not> isspace x) cs))"
      by simp
    then show ?thesis
    proof
      assume w: "w = c # takeWhile (\<lambda>x. \<not> isspace x) cs"
      have "\<forall>x\<in>set (takeWhile (\<lambda>x. \<not> isspace x) cs). \<not> isspace x"
        by (blast dest: set_takeWhileD)
      with w False show ?thesis by simp
    next
      assume "w \<in> set (py_split (dropWhile (\<lambda>x. \<not> isspace x) cs))"
      with 2(2) False show ?thesis by blast
    qed
  qed
qed

lemma py_split_Nil_iff: "py_split t = [] \<longleftrightarrow> (\<forall>c\<in>set t. isspace c)"
proof (induction t rule: py_split.induct)
  case 1
  then show ?case by simp
next
  case (2 c cs)
  then show ?case by (cases "isspace c") auto
qed

lemma py_join_Nil_iff: "\<forall>w\<in>set ws. w \<noteq> [] \<Longrightarrow> py_join sep ws = [] \<longleftrightarrow> ws = []"
  by (induction sep ws rule: py_join.induct) auto

lemma normalize_Nil_iff: "normalize_whitespace t = [] \<longleftrightarrow> (\<forall>c\<in>set t. isspace c)"
proof -
  have "\<forall>w\<in>set (py_split t). w \<noteq> []"
    using py_split_words by blast
  then have "py_join [32] (py_split t) = [] \<longleftrightarrow> py_split t = []"
    by (rule py_join_Nil_iff)
  then show ?thesis
    by (simp add: normalize_whitespace_def py_split_Nil_iff)
qed

lemma range_up_empty: "stop \<le> i \<Longrightarrow> range_up i stop step = []"
  by (subst range_up.simps) simp

lemma range_up_stop: "\<not> (0 < step \<and> i < stop) \<Longrightarrow> range_up i stop step = []"
  by (subst range_up.simps) simp

lemma range_up_step:
  "0 < step \<Longrightarrow> i < stop \<Longrightarrow> range_up i stop step = i # range_up (i + step) stop step"
  by (subst range_up.simps) simp

lemma split_fixed_overlap_cases:
  "split_fixed_overlap text chunk_size overlap =
     (if chunk_size \<le> overlap then Inl InvalidConfiguration
      else Inr (chunk_loop (normalize_whitespace text) chunk_size
             (range_up 0 (int (length (normalize_whitespace text))) (chunk_size - overlap)) []))"
  by (simp add: split_fixed_overlap_def py_range_def Let_def range_up_empty)

lemma range_up_lower: "x \<in> set (range_up i stop step) \<Longrightarrow> i \<le> x"
proof (induction i stop step rule: range_up.induct)
  case (1 i stop step)
  show ?case
  proof (cases "0 < step \<and> i < stop")
    case True
    then have "range_up i stop step = i # range_up (i + step) stop step"
      by (simp add: range_up_step)
    with 1(2) have "x = i \<or> x \<in> set (range_up (i + step) stop step)" by simp
    with 1(1) True show ?thesis by auto
  next
    case False
    then have "range_up i stop step = []" by (simp add: range_up_stop)
    with 1(2) show ?thesis by simp
  qed
qed

lemma range_up_sorted: "sorted_wrt (<) (range_up i stop step)"
proof (induction i stop step rule: range_up.induct)
  case (1 i stop step)
  show ?case
  proof (cases "0 < step \<and> i < stop")
    case True
    then have eq: "range_up i stop step = i # range_up (i + step) stop step"
      by (simp add: range_up_step)
    have lower: "\<forall>x\<in>set (range_up (i + step) stop step). i < x"
      using range_up_lower [of _ "i + step" stop step] True by fastforce
    from 1 True have "sorted_wrt (<) (range_up (i + step) stop step)" by blast
    with lower show ?thesis unfolding eq by simp
  next
    case False
    then show ?thesis by (simp add: range_up_stop)
  qed
qed

lemma range_up_set:
  "0 < step \<Longrightarrow> set (range_up i stop step) = {x. \<exists>k::nat. x = i + int k * step \<and> x < stop}"
proof (induction i stop step rule: range_up.induct)
  case (1 i stop step)
  show ?case
  proof (cases "i < stop")
    case True
    with 1(2) have eq: "range_up i stop step = i # range_up (i + step) stop step"
      by (simp add: range_up_step)
    have ih: "set (range_up (i + step) stop step) =
        {x. \<exists>k::nat. x = i + step + int k * step \<and> x < stop}"
      using 1 True by simp
    show ?thesis
    proof (rule set_eqI, rule iffI)
      fix x assume "x \<in> set (range_up i stop step)"
      with eq ih have "x = i \<or> (\<exists>k::nat. x = i + step + int k * step \<and> x < stop)" by auto
      then show "x \<in> {x. \<exists>k::nat. x = i + int k * step \<and> x < stop}"
      proof
        assume "x = i"
        with True have "x = i + int 0 * step \<and> x < stop" by simp
        then show ?thesis by blast
      next
        assume "\<exists>k::nat. x = i + step + int k * step \<and> x < stop"
        then obtain k :: nat where "x = i + step + int k * step" "x < stop" by blast
        then have "x = i + int (Suc k) * step \<and> x < stop" by (simp add: algebra_simps)
        then show ?thesis by blast
      qed
    next
      fix x assume "x \<in> {x. \<exists>k::nat. x = i + int k * step \<and> x < stop}"
      then obtain k :: nat where k: "x = i + int k * step" "x < stop" by blast
      show "x \<in> set (range_up i stop step)"
      proof (cases k)
        case 0
        with k eq show ?thesis by simp
      next
        case (Suc j)
        with k have "x = i + step + int j * step \<and> x < stop" by (simp add: algebra_simps)
        with ih eq show ?thesis by auto
      qed
    qed
  next
    case False
    then have "range_up i stop step = []" by (simp add: range_up_stop)
    moreover have "{x. \<exists>k::nat. x = i + int k * step \<and> x < stop} = {}"
    proof -
      have "\<not> i + int k * step < stop" for k :: nat
      proof -
        from 1(2) have "0 \<le> int k * step" by simp
        with False show ?thesis by linarith
      qed
      then show ?thesis by blast
    qed
    ultimately show ?thesis by simp
  qed
qed

lemma spec_offsets_sorted: "0 < step \<Longrightarrow> sorted_wrt (<) (spec_offsets len step)"
  unfolding spec_offsets_def
  by (simp add: sorted_wrt_map sorted_wrt_filter)

lemma spec_offsets_set:
  assumes "0 < step"
  shows "set (spec_offsets len step) = {x. \<exists>k::nat. x = int k * step \<and> x < int len}"
proof -
  have "k < len" if "int k * step < int len" for k :: nat
  proof -
    have "int k * 1 \<le> int k * step" using assms by (intro mult_left_mono) auto
    with that show ?thesis by simp
  qed
  then show ?thesis unfolding spec_offsets_def by auto
qed

lemma range_up_spec_offsets:
  assumes "0 < step"
  shows "range_up 0 (int len) step = spec_offsets len step"
proof -
  have "set (range_up 0 (int len) step) = set (spec_offsets len step)"
    using assms by (simp add: range_up_set spec_offsets_set)
  moreover have "sorted_wrt (<) (range_up 0 (int len) step)" by (rule range_up_sorted)
  moreover have "sorted_wrt (<) (spec_offsets len step)" using assms by (rule spec_offsets_sorted)
  ultimately show ?thesis
    by (simp add: strict_sorted_iff sorted_distinct_set_unique)
qed

lemma chunk_loop_eq:
  "chunk_loop t chunk_size starts chunks =
     chunks @ filter (\<lambda>c. c \<noteq> []) (map (\<lambda>start. py_strip (py_slice t start (start + chunk_size))) starts)"
  by (induction starts arbitrary: chunks) (simp_all add: Let_def)

lemma py_slice_window:
  assumes "0 \<le> start" and "0 \<le> chunk_size"
  shows "py_slice t start (start + chunk_size) = take (nat chunk_size) (drop (nat start) t)"
proof -
  have hi: "nat (start + chunk_size) = nat start + nat chunk_size"
    using assms by (simp add: nat_add_distrib)
  show ?thesis
    using assms unfolding py_slice_def slice_index_def Let_def hi
    by (auto simp: min_def)
qed

lemma spec_offsets_nonneg: "0 < step \<Longrightarrow> x \<in> set (spec_offsets len step) \<Longrightarrow> 0 \<le> x"
  by (auto simp: spec_offsets_set)

section \<open>The normalizer collapses runs of whitespace\<close>

lemma isspace_32: "isspace 32"
  by (simp add: isspace_def)

lemma all_space_Cons: "\<forall>c\<in>set ys. isspace c \<Longrightarrow> \<forall>c\<in>set (32 # ys). isspace c"
  using isspace_32 by auto

lemma not_all_space_Cons: "\<not> (\<forall>c\<in>set ys. isspace c) \<Longrightarrow> \<not> (\<forall>c\<in>set (y # ys). isspace c)"
  by auto

lemma py_join_Cons: "py_join sep (w # ws) = (if ws = [] then w else w @ sep @ py_join sep ws)"
  by (cases ws) simp_all

lemma py_split_word_end:
  assumes "w \<noteq> []" and "\<forall>c\<in>set w. \<not> isspace c"
  shows "py_split w = [w]"
proof -
  from assms(1) obtain c w' where w: "w = c # w'" by (cases w) auto
  with assms(2) have c: "\<not> isspace c" and w': "\<forall>x\<in>set w'. \<not> isspace x" by auto
  from w' have tw: "takeWhile (\<lambda>x. \<not> isspace x) w' = w'" by simp
  from w' have dw: "dropWhile (\<lambda>x. \<not> isspace x) w' = []" by simp
  show ?thesis unfolding w using c by (simp add: tw dw)
qed

lemma py_split_word_space:
  assumes "w \<noteq> []" and "\<forall>c\<in>set w. \<not> isspace c" and "isspace s"
  shows "py_split (w @ s # r) = w # py_split r"
proof -
  from assms(1) obtain c w' where w: "w = c # w'" by (cases w) auto
  with assms(2) have c: "\<not> isspace c" and w': "\<forall>x\<in>set w'. \<not> isspace x" by auto
  from w' assms(3) have tw: "takeWhile (\<lambda>x. \<not> isspace x) (w' @ s # r) = w'"
    by simp
  from w' assms(3) have dw: "dropWhile (\<lambda>x. \<not> isspace x) (w' @ s # r) = s # r"
    by simp
  show ?thesis unfolding w using c assms(3) by (simp add: tw dw)
qed

lemma py_split_join:
  "\<forall>w\<in>set ws. w \<noteq> [] \<and> (\<forall>c\<in>set w. \<not> isspace c) \<Longrightarrow> py_split (py_join [32] ws) = ws"
proof (induction "[32::nat]" ws rule: py_join.induct)
  case 1
  then show ?case by simp
next
  case (2 x)
  then show ?case by (simp add: py_split_word_end)
next
  case (3 x y ys)
  then have "py_split (py_join [32] (y # ys)) = y # ys" by simp
  moreover from 3(2) have "x \<noteq> []" "\<forall>c\<in>set x. \<not> isspace c" by simp_all
  ultimately show ?case
    by (simp add: py_split_word_space isspace_32)
qed

lemma normalize_idem: "normalize_whitespace (normalize_whitespace t) = normalize_whitespace t"
proof -
  have "\<forall>w\<in>set (py_split t). w \<noteq> [] \<and> (\<forall>c\<in>set w. \<not> isspace c)"
    using py_split_words by blast
  then have "py_split (py_join [32] (py_split t)) = py_split t"
    by (rule py_split_join)
  then show ?thesis by (simp add: normalize_whitespace_def)
qed

lemma py_rstrip_Nil_iff: "py_rstrip s = [] \<longleftrightarrow> (\<forall>c\<in>set s. isspace c)"
  by (simp add: py_rstrip_def)

lemma py_rstrip_append_space: "\<forall>c\<in>set ys. isspace c \<Longrightarrow> py_rstrip (xs @ ys) = py_rstrip xs"
  by (simp add: py_rstrip_def dropWhile_append)

lemma py_rstrip_append_keep:
  "\<not> (\<forall>c\<in>set ys. isspace c) \<Longrightarrow> py_rstrip (xs @ ys) = xs @ py_rstrip ys"
  by (auto simp: py_rstrip_def dropWhile_append)

lemma py_rstrip_word: "\<forall>c\<in>set w. \<not> isspace c \<Longrightarrow> py_rstrip w = w"
proof (cases w rule: rev_cases)
  case Nil
  then show ?thesis by (simp add: py_rstrip_def)
next
  case (snoc ys y)
  assume "\<forall>c\<in>set w. \<not> isspace c"
  with snoc have "\<not> isspace y" by simp
  with snoc show ?thesis by (simp add: py_rstrip_def)
qed

lemma collapse_runs_word:
  "\<forall>c\<in>set w. \<not> isspace c \<Longrightarrow> collapse_runs (w @ r) = w @ collapse_runs r"
  by (induction w) simp_all

lemma py_lstrip_collapse_start:
  "u = [] \<or> \<not> isspace (hd u) \<Longrightarrow> py_lstrip (collapse_runs u) = collapse_runs u"
  by (cases u) (simp_all add: py_lstrip_def)

lemma dropWhile_start: "dropWhile P xs = [] \<or> \<not> P (hd (dropWhile P xs))"
  using hd_dropWhile [of P xs] by blast

lemma py_lstrip_collapse: "py_lstrip (collapse_runs t) = collapse_runs (py_lstrip t)"
proof (cases t)
  case Nil
  then show ?thesis by (simp add: py_lstrip_def)
next
  case (Cons c cs)
  show ?thesis
  proof (cases "isspace c")
    case True
    have "py_lstrip (collapse_runs (dropWhile isspace cs)) = collapse_runs (dropWhile isspace cs)"
      by (rule py_lstrip_collapse_start) (rule dropWhile_start)
    with True Cons show ?thesis by (simp add: py_lstrip_def isspace_32)
  next
    case False
    with Cons show ?thesis by (simp add: py_lstrip_def)
  qed
qed

lemma normalize_rstrip_collapse:
  "normalize_whitespace t = py_rstrip (collapse_runs (py_lstrip t))"
proof (induction t rule: py_split.induct)
  case 1
  show ?case by (simp add: normalize_whitespace_def py_rstrip_def py_lstrip_def)
next
  case (2 c cs)
  show ?case
  proof (cases "isspace c")
    case True
    with 2(1) show ?thesis by (simp add: normalize_whitespace_def py_lstrip_def)
  next
    case False
    let ?w = "c # takeWhile (\<lambda>x. \<not> isspace x) cs"
    let ?rest = "dropWhile (\<lambda>x. \<not> isspace x) cs"
    have w: "\<forall>x\<in>set ?w. \<not> isspace x"
      using False by (auto dest: set_takeWhileD)
    have split: "c # cs = ?w @ ?rest" by simp
    have lhs: "normalize_whitespace (c # cs) = py_join [32] (?w # py_split ?rest)"
      using False by (simp add: normalize_whitespace_def)
    have "py_lstrip (c # cs) = c # cs" using False by (simp add: py_lstrip_def)
    then have rhs: "py_rstrip (collapse_runs (py_lstrip (c # cs))) = py_rstrip (?w @ collapse_runs ?rest)"
      using collapse_runs_word [OF w, of ?rest] by (simp only: split [symmetric])
    have ih: "py_join [32] (py_split ?rest) = py_rstrip (collapse_runs (py_lstrip ?rest))"
      using 2(2) False by (simp add: normalize_whitespace_def)
    show ?thesis
    proof (cases ?rest)
      case Nil
      show ?thesis
        unfolding lhs rhs Nil using py_rstrip_word [OF w] by simp
    next
      case (Cons s r')
      have "\<not> \<not> isspace (hd ?rest)"
        using hd_dropWhile [of "\<lambda>x. \<not> isspace x" cs] Cons by simp
      with Cons have s: "isspace s" by simp
      let ?Y = "collapse_runs (py_lstrip ?rest)"
      have cr: "collapse_runs ?rest = 32 # ?Y"
        using s Cons by (simp add: py_lstrip_def)
      have words: "\<forall>w\<in>set (py_split ?rest). w \<noteq> []"
        using py_split_words by blast
      have empty_iff: "py_split ?rest = [] \<longleftrightarrow> (\<forall>c\<in>set ?Y. isspace c)"
        using py_join_Nil_iff [OF words, of "[32]"] ih py_rstrip_Nil_iff [of ?Y] by simp
      show ?thesis
      proof (cases "py_split ?rest = []")
        case True
        with empty_iff have "\<forall>c\<in>set ?Y. isspace c" by blast
        then have "\<forall>c\<in>set (32 # ?Y). isspace c" by (rule all_space_Cons)
        then have "py_rstrip (?w @ 32 # ?Y) = py_rstrip ?w"
          by (rule py_rstrip_append_space)
        then have "py_rstrip (?w @ 32 # ?Y) = ?w"
          by (simp only: py_rstrip_word [OF w])
        then show ?thesis unfolding lhs rhs cr True by simp
      next
        case False
        with empty_iff have ny: "\<not> (\<forall>c\<in>set ?Y. isspace c)" by blast
        then have n32: "\<not> (\<forall>c\<in>set (32 # ?Y). isspace c)" by (rule not_all_space_Cons)
        have "py_rstrip ([32] @ ?Y) = [32] @ py_rstrip ?Y"
          using ny by (rule py_rstrip_append_keep)
        then have y: "py_rstrip (32 # ?Y) = 32 # py_rstrip ?Y" by simp
        have "py_rstrip (?w @ 32 # ?Y) = ?w @ py_rstrip (32 # ?Y)"
          using n32 by (rule py_rstrip_append_keep)
        then have r: "py_rstrip (?w @ 32 # ?Y) = ?w @ 32 # py_rstrip ?Y"
          by (simp only: y)
        have "py_join [32] (?w # py_split ?rest) = ?w @ [32] @ py_join [32] (py_split ?rest)"
          using False by (simp only: py_join_Cons if_False)
        then show ?thesis
          unfolding lhs rhs cr r ih by simp
      qed
    qed
  qed
qed

lemma normalize_spec: "normalize_whitespace t = spec_normalize t"
  by (simp add: spec_normalize_def py_strip_def py_lstrip_collapse normalize_rstrip_collapse)

section \<open>Trimming and the shape of the normal form\<close>

lemma last_dropWhile: "dropWhile P xs \<noteq> [] \<Longrightarrow> last (dropWhile P xs) = last xs"
  by (induction xs) (auto split: if_splits)

lemma py_rstrip_last: "py_rstrip s \<noteq> [] \<Longrightarrow> \<not> isspace (last (py_rstrip s))"
  using hd_dropWhile [of isspace "rev s"] by (simp add: py_rstrip_def last_rev)

lemma py_rstrip_hd: "py_rstrip s \<noteq> [] \<Longrightarrow> hd (py_rstrip s) = hd s"
proof -
  assume "py_rstrip s \<noteq> []"
  then have ne: "dropWhile isspace (rev s) \<noteq> []" by (simp add: py_rstrip_def)
  then have "s \<noteq> []" by auto
  from ne have "last (dropWhile isspace (rev s)) = last (rev s)" by (rule last_dropWhile)
  then show ?thesis using \<open>s \<noteq> []\<close> by (simp add: py_rstrip_def hd_rev last_rev)
qed

lemma py_rstrip_length: "length (py_rstrip s) \<le> length s"
  using length_dropWhile_le [of isspace "rev s"] by (simp add: py_rstrip_def)

lemma py_strip_length: "length (py_strip s) \<le> length s"
  using py_rstrip_length [of "py_lstrip s"] length_dropWhile_le [of isspace s]
  by (simp add: py_strip_def py_lstrip_def)

lemma py_strip_ends:
  assumes "py_strip s \<noteq> []"
  shows "\<not> isspace (hd (py_strip s))" and "\<not> isspace (last (py_strip s))"
proof -
  from assms have r: "py_rstrip (py_lstrip s) \<noteq> []" by (simp add: py_strip_def)
  then have "py_lstrip s \<noteq> []" by (auto simp: py_rstrip_def)
  then have "\<not> isspace (hd (py_lstrip s))"
    unfolding py_lstrip_def by (rule hd_dropWhile)
  with py_rstrip_hd [OF r] show "\<not> isspace (hd (py_strip s))" by (simp add: py_strip_def)
  from py_rstrip_last [OF r] show "\<not> isspace (last (py_strip s))" by (simp add: py_strip_def)
qed

lemma py_strip_start:
  assumes "s \<noteq> []" and "\<not> isspace (hd s)"
  shows "py_strip s \<noteq> []" and "py_lstrip s = s"
proof -
  from assms obtain c cs where s: "s = c # cs" and c: "\<not> isspace c" by (cases s) auto
  then show l: "py_lstrip s = s" by (simp add: py_lstrip_def)
  have "\<not> (\<forall>x\<in>set s. isspace x)" using s c by auto
  then have "py_rstrip s \<noteq> []" by (simp add: py_rstrip_Nil_iff)
  with l show "py_strip s \<noteq> []" by (simp add: py_strip_def)
qed

lemma py_strip_clean:
  assumes "s \<noteq> []" and "\<not> isspace (hd s)" and "\<not> isspace (last s)"
  shows "py_strip s = s"
proof -
  from assms(1) obtain ys y where s: "s = ys @ [y]" by (cases s rule: rev_cases) auto
  with assms(3) have "\<not> isspace y" by simp
  then have "py_rstrip s = s" unfolding s by (simp add: py_rstrip_def)
  with py_strip_start(2) [OF assms(1,2)] show ?thesis by (simp add: py_strip_def)
qed

lemma py_strip_space_Cons: "isspace c \<Longrightarrow> py_strip (c # cs) = py_strip cs"
  by (simp add: py_strip_def py_lstrip_def)

lemma normalize_strip: "normalize_whitespace t = py_strip (collapse_runs t)"
  using normalize_spec by (simp add: spec_normalize_def)

lemma normalize_ends:
  assumes "normalize_whitespace t \<noteq> []"
  shows "\<not> isspace (hd (normalize_whitespace t))" and "\<not> isspace (last (normalize_whitespace t))"
  using assms py_strip_ends [of "collapse_runs t"] by (simp_all add: normalize_strip)

text \<open>No two whitespace characters are adjacent in the normal form, and each is a space.\<close>

lemma successively_word:
  "\<forall>c\<in>set w. \<not> isspace c \<Longrightarrow> successively (\<lambda>a b. isspace a \<longrightarrow> \<not> isspace b) w"
  by (induction w) (auto simp: successively_Cons)

lemma hd_py_join: "w \<noteq> [] \<Longrightarrow> hd (py_join sep (w # ws)) = hd w"
  by (simp add: py_join_Cons)

lemma py_join_single_spaced:
  "\<forall>w\<in>set ws. w \<noteq> [] \<and> (\<forall>c\<in>set w. \<not> isspace c) \<Longrightarrow>
     successively (\<lambda>a b. isspace a \<longrightarrow> \<not> isspace b) (py_join [32] ws)"
proof (induction "[32::nat]" ws rule: py_join.induct)
  case 1
  then show ?case by simp
next
  case (2 x)
  then show ?case by (simp add: successively_word)
next
  case (3 x y ys)
  let ?Q = "\<lambda>a b. isspace a \<longrightarrow> \<not> isspace b"
  from 3(2) have x: "x \<noteq> []" "\<forall>c\<in>set x. \<not> isspace c"
    and y: "y \<noteq> []" "\<forall>c\<in>set y. \<not> isspace c" by simp_all
  from 3 have ih: "successively ?Q (py_join [32] (y # ys))" by simp
  from y have "\<not> isspace (hd y)" by (cases y) auto
  then have "\<not> isspace (hd (py_join [32] (y # ys)))"
    unfolding hd_py_join [OF y(1)] .
  with ih have tail: "successively ?Q (32 # py_join [32] (y # ys))"
    by (simp add: successively_Cons)
  from x have "\<not> isspace (last x)" using last_in_set by blast
  with x(1) tail successively_word [OF x(2)]
  have "successively ?Q (x @ 32 # py_join [32] (y # ys))"
    by (simp add: successively_append_iff)
  then show ?case by simp
qed

lemma normalize_single_spaced:
  "successively (\<lambda>a b. isspace a \<longrightarrow> \<not> isspace b) (normalize_whitespace t)"
proof -
  have "\<forall>w\<in>set (py_split t). w \<noteq> [] \<and> (\<forall>c\<in>set w. \<not> isspace c)"
    using py_split_words by blast
  then show ?thesis unfolding normalize_whitespace_def by (rule py_join_single_spaced)
qed

lemma successively_nth:
  "successively P xs \<Longrightarrow> Suc i < length xs \<Longrightarrow> P (xs ! i) (xs ! Suc i)"
proof (induction P xs arbitrary: i rule: successively.induct)
  case (3 P x y xs)
  then show ?case by (cases i) auto
qed simp_all

lemma py_join_chars:
  "c \<in> set (py_join sep ws) \<Longrightarrow> c \<in> set sep \<or> (\<exists>w\<in>set ws. c \<in> set w)"
  by (induction sep ws rule: py_join.induct) auto

lemma normalize_space_char:
  assumes "c \<in> set (normalize_whitespace t)" and "isspace c"
  shows "c = 32"
proof -
  from assms(1) have "c \<in> set [32] \<or> (\<exists>w\<in>set (py_split t). c \<in> set w)"
    unfolding normalize_whitespace_def by (rule py_join_chars)
  moreover have "\<not> (\<exists>w\<in>set (py_split t). c \<in> set w)"
    using py_split_words assms(2) by blast
  ultimately show ?thesis by simp
qed

section \<open>The contract of the normalizer\<close>

text \<open>
  Claim C7. \<open>normalize_whitespace\<close> is a function of its argument alone. Its result is the
  text with every maximal run of whitespace replaced by one ASCII space and the whitespace
  at both ends removed: it has no whitespace at either end, a whitespace character in it is
  never followed by another one, and each is the space U+0020. Normalizing twice gives the
  same as normalizing once.
\<close>

theorem normalize_whitespace_contract:
  "normalize_whitespace t = spec_normalize t \<and>
   (normalize_whitespace t = [] \<or>
      \<not> isspace (hd (normalize_whitespace t)) \<and> \<not> isspace (last (normalize_whitespace t))) \<and>
   successively (\<lambda>a b. isspace a \<longrightarrow> \<not> isspace b) (normalize_whitespace t) \<and>
   (\<forall>c\<in>set (normalize_whitespace t). isspace c \<longrightarrow> c = 32) \<and>
   normalize_whitespace (normalize_whitespace t) = normalize_whitespace t"
  using normalize_spec [of t] normalize_ends [of t] normalize_single_spaced [of t]
    normalize_space_char [of _ t] normalize_idem [of t]
  by blast

theorem normalize_whitespace_contract_witness:
  "normalize_whitespace [32, 9, 97, 98, 10, 13, 99, 32] = [97, 98, 32, 99] \<and>
   spec_normalize [32, 9, 97, 98, 10, 13, 99, 32] = [97, 98, 32, 99] \<and>
   normalize_whitespace [97, 98, 32, 99] = [97, 98, 32, 99]"
proof -
  have n: "normalize_whitespace [32, 9, 97, 98, 10, 13, 99, 32] = [97, 98, 32, 99]"
    by (simp add: normalize_whitespace_def isspace_def)
  note c = normalize_whitespace_contract [of "[32, 9, 97, 98, 10, 13, 99, 32]"]
  from c have "[97, 98, 32, 99] = spec_normalize [32, 9, 97, 98, 10, 13, 99, 32]"
    unfolding n by (rule conjunct1)
  then have "spec_normalize [32, 9, 97, 98, 10, 13, 99, 32] = [97, 98, 32, 99]"
    by (rule sym)
  moreover from c have "normalize_whitespace [97, 98, 32, 99] = [97, 98, 32, 99]"
    unfolding n by blast
  ultimately show ?thesis using n by blast
qed

section \<open>The chunker as a list of windows\<close>

lemma split_fixed_overlap_windows_eq:
  assumes "overlap < chunk_size"
  shows "split_fixed_overlap text chunk_size overlap =
     Inr (filter (\<lambda>c. c \<noteq> [])
       (map (window (normalize_whitespace text) chunk_size)
         (range_up 0 (int (length (normalize_whitespace text))) (chunk_size - overlap))))"
proof -
  have "window (normalize_whitespace text) chunk_size =
      (\<lambda>start. py_strip (py_slice (normalize_whitespace text) start (start + chunk_size)))"
    by (rule ext) (simp add: window_def)
  with assms show ?thesis
    by (simp add: split_fixed_overlap_cases chunk_loop_eq)
qed

lemma window_spec_chunk:
  "0 \<le> start \<Longrightarrow> 0 \<le> chunk_size \<Longrightarrow> window t chunk_size start = spec_chunk t chunk_size start"
  by (simp add: window_def spec_chunk_def py_slice_window)

lemma split_fixed_overlap_spec:
  assumes "overlap < chunk_size" and "0 \<le> chunk_size"
  shows "split_fixed_overlap text chunk_size overlap = Inr (spec_split text chunk_size overlap)"
proof -
  let ?t = "normalize_whitespace text"
  let ?offs = "spec_offsets (length ?t) (chunk_size - overlap)"
  have step: "0 < chunk_size - overlap" using assms by simp
  have eq: "map (window ?t chunk_size) ?offs = map (spec_chunk ?t chunk_size) ?offs"
    using assms(2) spec_offsets_nonneg [OF step]
    by (intro map_cong) (simp_all add: window_spec_chunk)
  show ?thesis
    unfolding split_fixed_overlap_windows_eq [OF assms(1)] range_up_spec_offsets [OF step] eq
    by (simp add: spec_split_def Let_def)
qed

lemma spec_chunk_props:
  assumes "0 \<le> chunk_size" and "spec_chunk t chunk_size offset \<noteq> []"
  shows "int (length (spec_chunk t chunk_size offset)) \<le> chunk_size"
    and "\<not> isspace (hd (spec_chunk t chunk_size offset))"
    and "\<not> isspace (last (spec_chunk t chunk_size offset))"
proof -
  let ?x = "take (nat chunk_size) (drop (nat offset) t)"
  have "length (py_strip ?x) \<le> length ?x" by (rule py_strip_length)
  also have "\<dots> \<le> nat chunk_size" by simp
  finally show "int (length (spec_chunk t chunk_size offset)) \<le> chunk_size"
    using assms(1) by (simp add: spec_chunk_def)
  from assms(2) have ne: "py_strip ?x \<noteq> []" by (simp add: spec_chunk_def)
  from py_strip_ends [OF ne]
  show "\<not> isspace (hd (spec_chunk t chunk_size offset))"
    and "\<not> isspace (last (spec_chunk t chunk_size offset))"
    by (simp_all add: spec_chunk_def)
qed

lemma spec_split_chunk:
  assumes "c \<in> set (spec_split text chunk_size overlap)"
  shows "c \<noteq> [] \<and> (\<exists>offset. c = spec_chunk (normalize_whitespace text) chunk_size offset)"
  using assms by (auto simp: spec_split_def Let_def)

lemma first_window_kept:
  assumes "overlap < chunk_size" and "0 < chunk_size" and "\<exists>x\<in>set text. \<not> isspace x"
  shows "spec_split text chunk_size overlap \<noteq> []"
proof -
  let ?t = "normalize_whitespace text"
  from assms(3) have ne: "?t \<noteq> []" by (simp add: normalize_Nil_iff)
  then have hd: "\<not> isspace (hd ?t)" by (rule normalize_ends)
  have step: "0 < chunk_size - overlap" using assms(1) by simp
  have "0 \<in> set (range_up 0 (int (length ?t)) (chunk_size - overlap))"
    using ne step by (simp add: range_up_step)
  then have zero: "0 \<in> set (spec_offsets (length ?t) (chunk_size - overlap))"
    by (simp only: range_up_spec_offsets [OF step])
  have "take (nat chunk_size) ?t \<noteq> []" using ne assms(2) by simp
  moreover have "hd (take (nat chunk_size) ?t) = hd ?t" using assms(2) by (simp add: hd_take)
  ultimately have "py_strip (take (nat chunk_size) ?t) \<noteq> []"
    using hd py_strip_start(1) by metis
  then have "spec_chunk ?t chunk_size 0 \<noteq> []" by (simp add: spec_chunk_def)
  with zero have "spec_chunk ?t chunk_size 0 \<in> set (spec_split text chunk_size overlap)"
    by (simp add: spec_split_def Let_def)
  then show ?thesis by auto
qed

lemma filter_windows_kept_starts:
  "filter (\<lambda>c. c \<noteq> []) (map (window t chunk_size) starts) =
     map (window t chunk_size) (kept_starts t chunk_size starts)"
  by (simp add: kept_starts_def filter_map comp_def)

lemma region_kept_covers:
  assumes "region_kept t chunk_size starts p" and "covered chunk_size starts p"
  shows "covered chunk_size (kept_starts t chunk_size starts) p"
proof -
  from assms(2) obtain start
    where start: "start \<in> set starts" "start \<le> int p" "int p < start + chunk_size"
    unfolding covered_def list_ex_iff by blast
  with assms(1) have "window t chunk_size start \<noteq> []"
    unfolding region_kept_def list_all_iff by blast
  with start(1) have "start \<in> set (kept_starts t chunk_size starts)"
    by (simp add: kept_starts_def)
  with start(2,3) show ?thesis
    unfolding covered_def list_ex_iff by blast
qed

lemma range_up_covers:
  assumes "0 < step" and "step \<le> chunk_size" and "p < len"
  shows "covered chunk_size (range_up 0 (int len) step) p"
proof -
  let ?q = "int p div step"
  have q: "0 \<le> ?q"
    using pos_imp_zdiv_nonneg_iff [OF assms(1), of "int p"] by simp
  have dm: "?q * step + int p mod step = int p" by (rule div_mult_mod_eq)
  have m0: "0 \<le> int p mod step" using assms(1) by (rule pos_mod_sign)
  have m1: "int p mod step < step" using assms(1) by (rule pos_mod_bound)
  from dm m0 have lo: "?q * step \<le> int p" by linarith
  from dm m1 have hi: "int p < ?q * step + step" by linarith
  have "int (nat ?q) = ?q" using q by simp
  then have "?q * step = 0 + int (nat ?q) * step" by simp
  moreover from lo assms(3) have "?q * step < int len" by linarith
  ultimately have "?q * step = 0 + int (nat ?q) * step \<and> ?q * step < int len" by blast
  then have "?q * step \<in> set (range_up 0 (int len) step)"
    unfolding range_up_set [OF assms(1)] by blast
  moreover from lo hi assms(2) have "?q * step \<le> int p \<and> int p < ?q * step + chunk_size"
    by linarith
  ultimately show ?thesis
    unfolding covered_def list_ex_iff by blast
qed

section \<open>A normalized text of 1500 characters\<close>

lemma replicate_word:
  "\<not> isspace a \<Longrightarrow> 0 < n \<Longrightarrow> replicate n a \<noteq> [] \<and> (\<forall>c\<in>set (replicate n a). \<not> isspace c)"
  by auto

lemma normalize_word:
  "w \<noteq> [] \<Longrightarrow> \<forall>c\<in>set w. \<not> isspace c \<Longrightarrow> normalize_whitespace w = w"
  by (simp add: normalize_whitespace_def py_split_word_end)

lemma normalize_two_words:
  assumes "u \<noteq> []" and "\<forall>c\<in>set u. \<not> isspace c" and "v \<noteq> []" and "\<forall>c\<in>set v. \<not> isspace c"
  shows "normalize_whitespace (u @ 32 # v) = u @ 32 # v"
proof -
  have "py_split (u @ 32 # v) = u # py_split v"
    using assms(1,2) isspace_32 by (rule py_split_word_space)
  also have "py_split v = [v]" using assms(3,4) by (rule py_split_word_end)
  finally show ?thesis by (simp add: normalize_whitespace_def)
qed

lemma range_1500: "range_up 0 1500 800 = [0, 800]"
  by (simp add: range_up.simps)

lemma scenario_1500:
  assumes norm: "normalize_whitespace t = t" and len: "length t = 1500"
  shows "split_fixed_overlap t 1000 200 = Inr [window t 1000 0, window t 1000 800]"
    and "window t 1000 0 \<noteq> []"
    and "window t 1000 800 \<noteq> []"
    and "length (window t 1000 800) = (if isspace (t ! 800) then 699 else 700)"
proof -
  from len have ne: "normalize_whitespace t \<noteq> []" unfolding norm by auto
  from normalize_ends [OF ne] have hd: "\<not> isspace (hd t)" and last: "\<not> isspace (last t)"
    unfolding norm by simp_all
  have adj: "successively (\<lambda>a b. isspace a \<longrightarrow> \<not> isspace b) t"
    using normalize_single_spaced [of t] unfolding norm .
  have w0: "window t 1000 0 = py_strip (take 1000 t)"
    by (simp add: window_spec_chunk spec_chunk_def)
  have "take 1000 t \<noteq> []" using len by auto
  moreover have "hd (take 1000 t) = hd t" by (simp add: hd_take)
  ultimately have "py_strip (take 1000 t) \<noteq> []"
    using hd py_strip_start(1) by metis
  then show k0: "window t 1000 0 \<noteq> []" unfolding w0 .
  let ?x = "drop 800 t"
  have w1: "window t 1000 800 = py_strip ?x"
    using len by (simp add: window_spec_chunk spec_chunk_def)
  have x: "?x \<noteq> []" "length ?x = 700" "last ?x = last t" "hd ?x = t ! 800"
    using len by (simp_all add: hd_drop_conv_nth)
  have size: "length (py_strip ?x) = (if isspace (t ! 800) then 699 else 700)"
  proof (cases "isspace (t ! 800)")
    case False
    then have "py_strip ?x = ?x" using x last by (intro py_strip_clean) simp_all
    with False x(2) show ?thesis by simp
  next
    case True
    let ?y = "drop 801 t"
    have cons: "?x = t ! 800 # ?y"
      using len Cons_nth_drop_Suc [of 800 t] by simp
    have "isspace (t ! 800) \<longrightarrow> \<not> isspace (t ! Suc 800)"
      using adj len by (intro successively_nth [where P = "\<lambda>a b. isspace a \<longrightarrow> \<not> isspace b"]) simp_all
    with True have n801: "\<not> isspace (t ! 801)" by simp
    have y: "?y \<noteq> []" "length ?y = 699" "last ?y = last t" "hd ?y = t ! 801"
      using len by (simp_all add: hd_drop_conv_nth)
    have "py_strip ?y = ?y" using y last n801 by (intro py_strip_clean) simp_all
    moreover have "py_strip ?x = py_strip ?y"
      unfolding cons using True by (rule py_strip_space_Cons)
    ultimately show ?thesis using True y(2) by simp
  qed
  then show "length (window t 1000 800) = (if isspace (t ! 800) then 699 else 700)"
    unfolding w1 .
  from size show k1: "window t 1000 800 \<noteq> []" unfolding w1 by (auto split: if_splits)
  have "split_fixed_overlap t 1000 200 =
      Inr (filter (\<lambda>c. c \<noteq> []) (map (window t 1000) (range_up 0 1500 800)))"
    using split_fixed_overlap_windows_eq [of 200 1000 t] norm len by simp
  with k0 k1 show "split_fixed_overlap t 1000 200 = Inr [window t 1000 0, window t 1000 800]"
    by (simp add: range_1500)
qed

section \<open>Parameter validation and empty input\<close>

text \<open>
  Claim C2. \<open>split_fixed_overlap\<close> fails with \<open>InvalidConfiguration\<close> exactly when the
  overlap is not smaller than the chunk size, the boundary \<open>overlap = chunk_size\<close> included.
  The check comes first: the error does not depend on the text and is raised for the empty
  text too. In every other case the function returns a list of chunks.
\<close>

theorem invalid_configuration_iff:
  "(split_fixed_overlap text chunk_size overlap = Inl InvalidConfiguration \<longleftrightarrow> chunk_size \<le> overlap) \<and>
   (chunk_size \<le> overlap \<longrightarrow> split_fixed_overlap [] chunk_size overlap = Inl InvalidConfiguration) \<and>
   (overlap < chunk_size \<longrightarrow> (\<exists>chunks. split_fixed_overlap text chunk_size overlap = Inr chunks))"
  by (simp add: split_fixed_overlap_cases)

theorem invalid_configuration_iff_witness:
  "(5::int) \<le> 5 \<and> (3::int) < 5 \<and>
   split_fixed_overlap (str ''abc'') 5 5 = Inl InvalidConfiguration \<and>
   split_fixed_overlap [] 5 5 = Inl InvalidConfiguration \<and>
   split_fixed_overlap (str ''abc'') 5 3 \<noteq> Inl InvalidConfiguration"
  using invalid_configuration_iff [of "str ''abc''" 5 5] invalid_configuration_iff [of "str ''abc''" 5 3]
  by simp

text \<open>
  Claim C3. With a valid configuration, a text that is empty or made of whitespace only gives
  the empty list of chunks, and no error.
\<close>

theorem empty_text_no_chunks:
  assumes "overlap < chunk_size" and "\<forall>c\<in>set text. isspace c"
  shows "split_fixed_overlap text chunk_size overlap = Inr []"
  using assms by (simp add: split_fixed_overlap_def normalize_Nil_iff)

theorem empty_text_no_chunks_witness:
  "(200::int) < 1000 \<and> list_all isspace [32, 10, 9] \<and>
   split_fixed_overlap [32, 10, 9] 1000 200 = Inr [] \<and> split_fixed_overlap [] 1000 200 = Inr []"
  using empty_text_no_chunks [of 200 1000 "[32, 10, 9]"] empty_text_no_chunks [of 200 1000 "[]"]
  by (simp add: isspace_def)

section \<open>The chunker against its description\<close>

text \<open>
  Claim C1, amended. For every text and all integers \<open>chunk_size\<close> and \<open>overlap\<close> with
  \<open>overlap < chunk_size\<close> and \<open>0 \<le> chunk_size\<close>, \<open>split_fixed_overlap\<close> normalizes the
  whitespace of the text, takes the step \<open>chunk_size - overlap\<close>, and for each starting
  offset \<open>0, step, 2 * step, \<dots>\<close> below the normalized length takes the substring of up to
  \<open>chunk_size\<close> characters from there, trims it, drops it when it is empty, and returns the
  remaining chunks in the order of their offsets, which is strictly increasing.

  The claim as written, for every \<open>chunk_size\<close>, fails for a negative one: the upper bound
  \<open>start + chunk_size\<close> of the slice is then negative for small \<open>start\<close> and counts from the
  end of the text.
\<close>

theorem split_fixed_overlap_refines_spec:
  assumes "overlap < chunk_size" and "0 \<le> chunk_size"
  shows "split_fixed_overlap text chunk_size overlap = Inr (spec_split text chunk_size overlap) \<and>
         sorted_wrt (<) (spec_offsets (length (normalize_whitespace text)) (chunk_size - overlap))"
  using assms split_fixed_overlap_spec [OF assms] spec_offsets_sorted [of "chunk_size - overlap"]
  by simp

theorem split_fixed_overlap_refines_spec_witness:
  "(1::int) < 4 \<and> (0::int) \<le> 4 \<and>
   spec_split (str ''abcdefghij'') 4 1 = [str ''abcd'', str ''defg'', str ''ghij'', str ''j''] \<and>
   split_fixed_overlap (str ''abcdefghij'') 4 1 = Inr (spec_split (str ''abcdefghij'') 4 1) \<and>
   sorted_wrt (<) (spec_offsets (length (normalize_whitespace (str ''abcdefghij''))) (4 - 1))"
proof -
  have "spec_split (str ''abcdefghij'') 4 1 = [str ''abcd'', str ''defg'', str ''ghij'', str ''j'']"
    by (simp add: normalize_whitespace_def str_def isspace_def py_strip_def py_lstrip_def
        py_rstrip_def spec_split_def spec_chunk_def spec_offsets_def)
  with split_fixed_overlap_refines_spec [of 1 4 "str ''abcdefghij''"] show ?thesis by simp
qed

theorem negative_chunk_size_counterexample:
  "(- 5 :: int) < - 2 \<and>
   split_fixed_overlap (str ''abcdefghij'') (- 2) (- 5) = Inr [str ''abcdefgh''] \<and>
   spec_split (str ''abcdefghij'') (- 2) (- 5) = [] \<and>
   split_fixed_overlap (str ''abcdefghij'') (- 2) (- 5) \<noteq>
     Inr (spec_split (str ''abcdefghij'') (- 2) (- 5))"
  by (simp add: split_fixed_overlap_def normalize_whitespace_def str_def isspace_def
      py_range_def range_up.simps py_strip_def py_lstrip_def py_rstrip_def py_slice_def
      slice_index_def spec_split_def spec_chunk_def spec_offsets_def)

text \<open>
  Claim C10, amended. For every text and all \<open>chunk_size\<close>, \<open>overlap\<close> with
  \<open>overlap < chunk_size\<close> and \<open>0 \<le> chunk_size\<close>, the function returns, and every chunk it
  returns is a non-empty string of at most \<open>chunk_size\<close> characters without whitespace at
  either end, the trimmed form of a contiguous substring of the normalized text. Moreover,
  when \<open>0 < chunk_size\<close> and the text has a character that is not whitespace, at least one
  chunk is returned.

  The claim as written, for every \<open>chunk_size\<close>, fails twice: with chunk size 0 every
  window is empty and nothing is returned for the text \<open>a\<close>; with a negative chunk size a
  chunk is longer than the chunk size.
\<close>

theorem chunks_trimmed_nonempty_bounded:
  assumes "overlap < chunk_size" and "0 \<le> chunk_size"
  shows "\<exists>chunks. split_fixed_overlap text chunk_size overlap = Inr chunks \<and>
     (\<forall>c\<in>set chunks.
        c \<noteq> [] \<and> int (length c) \<le> chunk_size \<and> \<not> isspace (hd c) \<and> \<not> isspace (last c) \<and>
        (\<exists>start n. c = py_strip (take n (drop start (normalize_whitespace text))))) \<and>
     (0 < chunk_size \<and> (\<exists>x\<in>set text. \<not> isspace x) \<longrightarrow> chunks \<noteq> [])"
proof -
  let ?chunks = "spec_split text chunk_size overlap"
  have ret: "split_fixed_overlap text chunk_size overlap = Inr ?chunks"
    using assms by (rule split_fixed_overlap_spec)
  have each: "c \<noteq> [] \<and> int (length c) \<le> chunk_size \<and> \<not> isspace (hd c) \<and> \<not> isspace (last c) \<and>
      (\<exists>start n. c = py_strip (take n (drop start (normalize_whitespace text))))"
    if c: "c \<in> set ?chunks" for c
  proof -
    from spec_split_chunk [OF c] obtain offset
      where ne: "c \<noteq> []" and eq: "c = spec_chunk (normalize_whitespace text) chunk_size offset"
      by blast
    from ne eq spec_chunk_props [OF assms(2), of "normalize_whitespace text" offset]
    have "int (length c) \<le> chunk_size" and "\<not> isspace (hd c)" and "\<not> isspace (last c)"
      by simp_all
    moreover from eq have "\<exists>start n. c = py_strip (take n (drop start (normalize_whitespace text)))"
      unfolding spec_chunk_def by blast
    ultimately show ?thesis using ne by blast
  qed
  have first: "?chunks \<noteq> []" if "0 < chunk_size \<and> (\<exists>x\<in>set text. \<not> isspace x)"
    using that assms(1) by (simp add: first_window_kept)
  from ret each first show ?thesis by blast
qed

theorem chunks_trimmed_nonempty_bounded_witness:
  "(1::int) < 4 \<and> (0::int) \<le> 4 \<and>
   split_fixed_overlap (str ''abc  defgh'') 4 1 = Inr [str ''abc'', str ''def'', str ''fgh''] \<and>
   list_all (\<lambda>c. c \<noteq> [] \<and> int (length c) \<le> 4 \<and> \<not> isspace (hd c) \<and> \<not> isspace (last c))
     [str ''abc'', str ''def'', str ''fgh'']"
proof -
  have v: "split_fixed_overlap (str ''abc  defgh'') 4 1 = Inr [str ''abc'', str ''def'', str ''fgh'']"
    by (simp add: split_fixed_overlap_def normalize_whitespace_def str_def isspace_def
      py_range_def range_up.simps py_strip_def py_lstrip_def py_rstrip_def py_slice_def
      slice_index_def)
  from chunks_trimmed_nonempty_bounded [of 1 4 "str ''abc  defgh''"]
  have "\<forall>c\<in>set [str ''abc'', str ''def'', str ''fgh''].
      c \<noteq> [] \<and> int (length c) \<le> 4 \<and> \<not> isspace (hd c) \<and> \<not> isspace (last c)"
    unfolding v by auto
  with v show ?thesis by (simp add: list_all_iff)
qed

theorem zero_or_negative_chunk_size_counterexample:
  "(- 1 :: int) < 0 \<and> list_ex (\<lambda>x. \<not> isspace x) (str ''a'') \<and>
   split_fixed_overlap (str ''a'') 0 (- 1) = Inr [] \<and>
   (- 5 :: int) < - 2 \<and>
   split_fixed_overlap (str ''abcdefghij'') (- 2) (- 5) = Inr [str ''abcdefgh''] \<and>
   \<not> int (length (str ''abcdefgh'')) \<le> - 2"
  by (simp add: split_fixed_overlap_def normalize_whitespace_def str_def isspace_def
      py_range_def range_up.simps py_strip_def py_lstrip_def py_rstrip_def py_slice_def
      slice_index_def)

text \<open>
  Claim C4, amended. For every text and all \<open>chunk_size\<close>, \<open>overlap\<close> with
  \<open>0 \<le> overlap < chunk_size\<close>: the chunks returned are the windows that do not trim to
  empty, in the order of their starting offsets, and a position of the normalized text lies
  in the span \<open>[start, start + chunk_size)\<close> of one of these chunks, provided no window
  whose span holds the position trims to empty.

  The claim as written, for every \<open>overlap < chunk_size\<close>, fails for a negative overlap:
  the step is then larger than the chunk size and the windows leave gaps, although none of
  them trims to empty.
\<close>

theorem windows_cover_text:
  assumes "0 \<le> overlap" and "overlap < chunk_size"
    and "region_kept (normalize_whitespace text) chunk_size
           (range_up 0 (int (length (normalize_whitespace text))) (chunk_size - overlap)) p"
    and "p < length (normalize_whitespace text)"
  shows "split_fixed_overlap text chunk_size overlap =
           Inr (map (window (normalize_whitespace text) chunk_size)
                  (kept_starts (normalize_whitespace text) chunk_size
                     (range_up 0 (int (length (normalize_whitespace text))) (chunk_size - overlap)))) \<and>
         covered chunk_size
           (kept_starts (normalize_whitespace text) chunk_size
              (range_up 0 (int (length (normalize_whitespace text))) (chunk_size - overlap))) p"
proof -
  have "0 < chunk_size - overlap" and "chunk_size - overlap \<le> chunk_size"
    using assms(1,2) by simp_all
  then have "covered chunk_size
      (range_up 0 (int (length (normalize_whitespace text))) (chunk_size - overlap)) p"
    using assms(4) by (rule range_up_covers)
  with assms(3) have "covered chunk_size
      (kept_starts (normalize_whitespace text) chunk_size
         (range_up 0 (int (length (normalize_whitespace text))) (chunk_size - overlap))) p"
    by (rule region_kept_covers)
  then show ?thesis
    unfolding split_fixed_overlap_windows_eq [OF assms(2)] filter_windows_kept_starts
    by simp
qed

theorem windows_cover_text_witness:
  "(0::int) \<le> 0 \<and> (0::int) < 1 \<and>
   range_up 0 (int (length (normalize_whitespace (str ''a b'')))) (1 - 0) = [0, 1, 2] \<and>
   \<not> all_windows_kept (normalize_whitespace (str ''a b'')) 1 [0, 1, 2] \<and>
   region_kept (normalize_whitespace (str ''a b'')) 1 [0, 1, 2] 2 \<and>
   2 < length (normalize_whitespace (str ''a b'')) \<and>
   kept_starts (normalize_whitespace (str ''a b'')) 1 [0, 1, 2] = [0, 2] \<and>
   split_fixed_overlap (str ''a b'') 1 0 = Inr [str ''a'', str ''b''] \<and>
   covered 1 [0, 2] 2"
proof -
  have n: "normalize_whitespace (str ''a b'') = str ''a b''"
    by (simp add: normalize_whitespace_def str_def isspace_def)
  have r: "range_up 0 (int (length (str ''a b''))) (1 - 0) = [0, 1, 2]"
    by (simp add: str_def range_up.simps)
  have w: "window (str ''a b'') 1 0 = str ''a''" "window (str ''a b'') 1 1 = []"
    "window (str ''a b'') 1 2 = str ''b''"
    by (simp_all add: window_def str_def isspace_def py_strip_def py_lstrip_def py_rstrip_def
        py_slice_def slice_index_def)
  have k: "kept_starts (str ''a b'') 1 [0, 1, 2] = [0, 2]"
    by (simp add: kept_starts_def w) (simp add: str_def)
  have g: "region_kept (str ''a b'') 1 [0, 1, 2] 2"
    by (simp add: region_kept_def w) (simp add: str_def)
  have a: "\<not> all_windows_kept (str ''a b'') 1 [0, 1, 2]"
    by (simp add: all_windows_kept_def w)
  have l: "2 < length (str ''a b'')" by (simp add: str_def)
  from windows_cover_text [of 0 1 "str ''a b''" 2] g l
  have "split_fixed_overlap (str ''a b'') 1 0 = Inr [str ''a'', str ''b'']"
    and "covered 1 [0, 2] 2"
    unfolding n r k by (simp_all add: w)
  with r k g a l show ?thesis unfolding n by simp
qed

theorem negative_overlap_counterexample:
  "(- 1 :: int) < 4 \<and>
   split_fixed_overlap (str ''abcdefghij'') 4 (- 1) = Inr [str ''abcd'', str ''fghi''] \<and>
   range_up 0 (int (length (normalize_whitespace (str ''abcdefghij'')))) (4 - (- 1)) = [0, 5] \<and>
   all_windows_kept (normalize_whitespace (str ''abcdefghij'')) 4 [0, 5] \<and>
   region_kept (normalize_whitespace (str ''abcdefghij'')) 4 [0, 5] 4 \<and>
   kept_starts (normalize_whitespace (str ''abcdefghij'')) 4 [0, 5] = [0, 5] \<and>
   4 < length (normalize_whitespace (str ''abcdefghij'')) \<and>
   \<not> covered 4 [0, 5] 4"
  by (simp add: split_fixed_overlap_def normalize_whitespace_def str_def isspace_def
      py_range_def range_up.simps py_strip_def py_lstrip_def py_rstrip_def py_slice_def
      slice_index_def all_windows_kept_def region_kept_def kept_starts_def window_def
      covered_def)

section \<open>The scenarios of the specification\<close>

text \<open>
  Claim C5. The text \<open>abcdefghij\<close> is its own normal form and has length 10; with chunk
  size 4 and overlap 1 the step is 3, the starting offsets are 0, 3, 6 and 9, and the chunks
  are \<open>abcd\<close>, \<open>defg\<close>, \<open>ghij\<close> and \<open>j\<close>, in this order.
\<close>

theorem scenario_abcdefghij:
  "normalize_whitespace (str ''abcdefghij'') = str ''abcdefghij'' \<and>
   length (str ''abcdefghij'') = 10 \<and>
   py_range 0 (int (length (str ''abcdefghij''))) (4 - 1) = Inr [0, 3, 6, 9] \<and>
   split_fixed_overlap (str ''abcdefghij'') 4 1 =
     Inr [str ''abcd'', str ''defg'', str ''ghij'', str ''j'']"
  by (simp add: split_fixed_overlap_def normalize_whitespace_def str_def isspace_def
      py_range_def range_up.simps py_strip_def py_lstrip_def py_rstrip_def py_slice_def
      slice_index_def)

text \<open>
  Claim C6, amended. For every normalized text of length 1500 and the default parameters
  (chunk size 1000, overlap 200) the step is 800, the starting offsets are 0 and 800, and
  exactly two chunks are returned, the windows at 0 and at 800; the second chunk has length
  700 when the character at offset 800 is not whitespace, and 699 when it is.

  The claim as written, with length 700 in every case, fails when the character at offset
  800 is a space: the window starts with it and \<open>strip\<close> removes it.
\<close>

theorem scenario_length_1500:
  assumes "normalize_whitespace t = t" and "length t = 1500"
  shows "CHUNK_SIZE - CHUNK_OVERLAP = 800 \<and>
     py_range 0 (int (length t)) (CHUNK_SIZE - CHUNK_OVERLAP) = Inr [0, 800] \<and>
     split_fixed_overlap t CHUNK_SIZE CHUNK_OVERLAP =
       Inr [window t CHUNK_SIZE 0, window t CHUNK_SIZE 800] \<and>
     window t CHUNK_SIZE 0 \<noteq> [] \<and> window t CHUNK_SIZE 800 \<noteq> [] \<and>
     length (window t CHUNK_SIZE 800) = (if isspace (t ! 800) then 699 else 700)"
  using scenario_1500 [OF assms] assms(2)
  by (simp add: CHUNK_SIZE_def CHUNK_OVERLAP_def py_range_def range_1500)

theorem scenario_length_1500_witness:
  "normalize_whitespace (replicate 1500 97) = replicate 1500 97 \<and>
   length (replicate 1500 (97::nat)) = 1500 \<and>
   split_fixed_overlap (replicate 1500 97) CHUNK_SIZE CHUNK_OVERLAP =
     Inr [window (replicate 1500 97) CHUNK_SIZE 0, window (replicate 1500 97) CHUNK_SIZE 800] \<and>
   length (window (replicate 1500 97) CHUNK_SIZE 800) = 700"
proof -
  have a: "\<not> isspace 97" by (simp add: isspace_def)
  have n: "normalize_whitespace (replicate 1500 97) = replicate 1500 97"
    using replicate_word [OF a, of 1500] by (intro normalize_word) simp_all
  have l: "length (replicate 1500 (97::nat)) = 1500" by simp
  from scenario_length_1500 [OF n l] a n l show ?thesis by simp
qed

theorem second_chunk_trimmed_counterexample:
  "normalize_whitespace (replicate 800 97 @ 32 # replicate 699 97) =
     replicate 800 97 @ 32 # replicate 699 97 \<and>
   length (replicate 800 (97::nat) @ 32 # replicate 699 97) = 1500 \<and>
   split_fixed_overlap (replicate 800 97 @ 32 # replicate 699 97) 1000 200 =
     Inr [window (replicate 800 97 @ 32 # replicate 699 97) 1000 0,
          window (replicate 800 97 @ 32 # replicate 699 97) 1000 800] \<and>
   length (window (replicate 800 97 @ 32 # replicate 699 97) 1000 800) = 699 \<and>
   length (window (replicate 800 97 @ 32 # replicate 699 97) 1000 800) \<noteq> 700"
proof -
  let ?t = "replicate 800 97 @ 32 # replicate 699 (97::nat)"
  have a: "\<not> isspace 97" by (simp add: isspace_def)
  have n: "normalize_whitespace ?t = ?t"
    using replicate_word [OF a, of 800] replicate_word [OF a, of 699]
    by (intro normalize_two_words) simp_all
  have l: "length ?t = 1500" by simp
  have "?t ! 800 = 32" by (simp add: nth_append)
  then have s: "isspace (?t ! 800)" using isspace_32 by simp
  from scenario_1500 [OF n l] s show ?thesis using n l by simp
qed

section \<open>Errors of the persister and of the text extractor\<close>

lemma insert_chunks_mismatch:
  "length chunks \<noteq> length embeddings \<Longrightarrow>
     insert_chunks env filename chunks embeddings w = (Inl LengthMismatch, w)"
  by (simp add: insert_chunks_def)

lemma insert_chunks_same_length:
  "length chunks = length embeddings \<Longrightarrow>
     fst (insert_chunks env filename chunks embeddings w) \<noteq> Inl LengthMismatch"
  by (simp add: insert_chunks_def Let_def split: option.splits)

lemma load_text_unsupported:
  "load_text env path = Inl UnsupportedFormat \<longleftrightarrow>
     \<not> py_endswith (str_lower env path) (str ''.pdf'') \<and>
     \<not> py_endswith (str_lower env path) (str ''.docx'')"
  by (simp add: load_text_def read_pdf_def read_docx_def Let_def split: sum.splits)

lemma main_load_error: "load_text env path = Inl e \<Longrightarrow> main env path w = (Inl e, w)"
  by (simp add: main_def Let_def)

text \<open>
  Claim C8. \<open>insert_chunks\<close> fails with \<open>LengthMismatch\<close> exactly when the chunks and the
  embeddings differ in number; it then returns the world as it found it: no identifier
  drawn, no storage connection opened, no row written.
\<close>

theorem insert_chunks_length_mismatch_iff:
  "(fst (insert_chunks env filename chunks embeddings w) = Inl LengthMismatch \<longleftrightarrow>
      length chunks \<noteq> length embeddings) \<and>
   (length chunks \<noteq> length embeddings \<longrightarrow>
      insert_chunks env filename chunks embeddings w = (Inl LengthMismatch, w))"
  using insert_chunks_mismatch [of chunks embeddings env filename w]
    insert_chunks_same_length [of chunks embeddings env filename w]
  by (cases "length chunks = length embeddings") simp_all

theorem insert_chunks_length_mismatch_iff_witness:
  "length [str ''a'', str ''b''] \<noteq> length [[1::int]] \<and>
   insert_chunks
     \<lparr>str_lower = id, pdf_pages = (\<lambda>p. Inr []), docx_paragraphs = (\<lambda>p. Inr []),
      gemini_api_key = None, embed_content = (\<lambda>n t. Inr []), uuid4 = (\<lambda>n. [48 + n]),
      utcnow = (7::nat), db_connect = None, execute_values = (\<lambda>rows. None), db_commit = None,
      stdout_error = (\<lambda>m. None)\<rparr>
     (str ''f.pdf'') [str ''a'', str ''b''] [[1::int]]
     \<lparr>embed_requests = [], uuids_drawn = 0, connections_opened = 0, document_chunks = [],
      printed = []\<rparr>
   = (Inl LengthMismatch,
      \<lparr>embed_requests = [], uuids_drawn = 0, connections_opened = 0, document_chunks = [],
       printed = []\<rparr>) \<and>
   insert_chunks
     \<lparr>str_lower = id, pdf_pages = (\<lambda>p. Inr []), docx_paragraphs = (\<lambda>p. Inr []),
      gemini_api_key = None, embed_content = (\<lambda>n t. Inr []), uuid4 = (\<lambda>n. [48 + n]),
      utcnow = (7::nat), db_connect = None, execute_values = (\<lambda>rows. None), db_commit = None,
      stdout_error = (\<lambda>m. None)\<rparr>
     (str ''f.pdf'') [str ''a''] [[1::int]]
     \<lparr>embed_requests = [], uuids_drawn = 0, connections_opened = 0, document_chunks = [],
      printed = []\<rparr>
   = (Inr (),
      \<lparr>embed_requests = [], uuids_drawn = 1, connections_opened = 1,
       document_chunks = [([48], str ''a'', [1], str ''f.pdf'', SPLIT_STRATEGY, 7)],
       printed = []\<rparr>)"
proof -
  let ?env = "\<lparr>str_lower = id, pdf_pages = (\<lambda>p. Inr []), docx_paragraphs = (\<lambda>p. Inr []),
      gemini_api_key = None, embed_content = (\<lambda>n t. Inr []), uuid4 = (\<lambda>n. [48 + n]),
      utcnow = (7::nat), db_connect = None, execute_values = (\<lambda>rows. None), db_commit = None,
      stdout_error = (\<lambda>m. None)\<rparr>
      :: (int, nat) env"
  let ?w = "\<lparr>embed_requests = [], uuids_drawn = 0, connections_opened = 0, document_chunks = [],
      printed = []\<rparr> :: (int, nat) world"
  have d: "length [str ''a'', str ''b''] \<noteq> length [[1::int]]" by simp
  from insert_chunks_length_mismatch_iff [of ?env "str ''f.pdf''" "[str ''a'', str ''b'']" "[[1]]" ?w] d
  have "insert_chunks ?env (str ''f.pdf'') [str ''a'', str ''b''] [[1]] ?w = (Inl LengthMismatch, ?w)"
    by blast
  moreover have "insert_chunks ?env (str ''f.pdf'') [str ''a''] [[1]] ?w =
      (Inr (), \<lparr>embed_requests = [], uuids_drawn = 1, connections_opened = 1,
       document_chunks = [([48], str ''a'', [1], str ''f.pdf'', SPLIT_STRATEGY, 7)],
       printed = []\<rparr>)"
    by (simp add: insert_chunks_def)
  ultimately show ?thesis using d by blast
qed

text \<open>
  Claim C9. \<open>load_text\<close> fails with \<open>UnsupportedFormat\<close> exactly when the path in lower
  case ends neither with \<open>.pdf\<close> nor with \<open>.docx\<close>; \<open>main\<close> then ends with this error
  and leaves the world as it found it: nothing chunked, no embedding requested, nothing
  stored, nothing printed.
\<close>

theorem load_text_unsupported_format_iff:
  "(load_text env path = Inl UnsupportedFormat \<longleftrightarrow>
      \<not> py_endswith (str_lower env path) (str ''.pdf'') \<and>
      \<not> py_endswith (str_lower env path) (str ''.docx'')) \<and>
   (load_text env path = Inl UnsupportedFormat \<longrightarrow> main env path w = (Inl UnsupportedFormat, w))"
  using load_text_unsupported [of env path] main_load_error [of env path UnsupportedFormat w]
  by blast

theorem load_text_unsupported_format_iff_witness:
  "load_text
     \<lparr>str_lower = map (\<lambda>c. if 65 \<le> c \<and> c \<le> 90 then c + 32 else c),
      pdf_pages = (\<lambda>p. Inr [Some (str ''text'')]), docx_paragraphs = (\<lambda>p. Inr []),
      gemini_api_key = None, embed_content = (\<lambda>n t. Inr [1::int]), uuid4 = (\<lambda>n. [48 + n]),
      utcnow = (7::nat), db_connect = None, execute_values = (\<lambda>rows. None), db_commit = None,
      stdout_error = (\<lambda>m. None)\<rparr>
     (str ''notes.txt'') = Inl UnsupportedFormat \<and>
   main
     \<lparr>str_lower = map (\<lambda>c. if 65 \<le> c \<and> c \<le> 90 then c + 32 else c),
      pdf_pages = (\<lambda>p. Inr [Some (str ''text'')]), docx_paragraphs = (\<lambda>p. Inr []),
      gemini_api_key = None, embed_content = (\<lambda>n t. Inr [1::int]), uuid4 = (\<lambda>n. [48 + n]),
      utcnow = (7::nat), db_connect = None, execute_values = (\<lambda>rows. None), db_commit = None,
      stdout_error = (\<lambda>m. None)\<rparr>
     (str ''notes.txt'')
     \<lparr>embed_requests = [], uuids_drawn = 0, connections_opened = 0, document_chunks = [],
      printed = []\<rparr>
   = (Inl UnsupportedFormat,
      \<lparr>embed_requests = [], uuids_drawn = 0, connections_opened = 0, document_chunks = [],
       printed = []\<rparr>) \<and>
   load_text
     \<lparr>str_lower = map (\<lambda>c. if 65 \<le> c \<and> c \<le> 90 then c + 32 else c),
      pdf_pages = (\<lambda>p. Inr [Some (str ''text'')]), docx_paragraphs = (\<lambda>p. Inr []),
      gemini_api_key = None, embed_content = (\<lambda>n t. Inr [1::int]), uuid4 = (\<lambda>n. [48 + n]),
      utcnow = (7::nat), db_connect = None, execute_values = (\<lambda>rows. None), db_commit = None,
      stdout_error = (\<lambda>m. None)\<rparr>
     (str ''Report.PDF'') = Inr (str ''text'')"
proof -
  let ?env = "\<lparr>str_lower = map (\<lambda>c. if 65 \<le> c \<and> c \<le> 90 then c + 32 else c),
      pdf_pages = (\<lambda>p. Inr [Some (str ''text'')]), docx_paragraphs = (\<lambda>p. Inr []),
      gemini_api_key = None, embed_content = (\<lambda>n t. Inr [1::int]), uuid4 = (\<lambda>n. [48 + n]),
      utcnow = (7::nat), db_connect = None, execute_values = (\<lambda>rows. None), db_commit = None,
      stdout_error = (\<lambda>m. None)\<rparr>
      :: (int, nat) env"
  let ?w = "\<lparr>embed_requests = [], uuids_drawn = 0, connections_opened = 0, document_chunks = [],
      printed = []\<rparr> :: (int, nat) world"
  have s: "\<not> py_endswith (str_lower ?env (str ''notes.txt'')) (str ''.pdf'') \<and>
      \<not> py_endswith (str_lower ?env (str ''notes.txt'')) (str ''.docx'')"
    by (simp add: py_endswith_def str_def)
  from load_text_unsupported_format_iff [of ?env "str ''notes.txt''" ?w] s
  have "load_text ?env (str ''notes.txt'') = Inl UnsupportedFormat"
    and "main ?env (str ''notes.txt'') ?w = (Inl UnsupportedFormat, ?w)"
    by blast+
  moreover have "load_text ?env (str ''Report.PDF'') = Inr (str ''text'')"
    by (simp add: load_text_def read_pdf_def py_endswith_def str_def py_strip_def py_lstrip_def
        py_rstrip_def isspace_def)
  ultimately show ?thesis by blast
qed

end
